theory Spec2Isabelle
  imports Main
begin

section \<open>Inventory change records\<close>

text \<open>
  Both variants of the monitor (\<^verbatim>\<open>src/index.js\<close>, backed by a PostgreSQL table, and
  \<^verbatim>\<open>src/unnamed/part_000\<close>, backed by a JSON state file) build the same object from a
  table row: five properties, each the trimmed \<^verbatim>\<open>innerText\<close> of a cell or
  \<^verbatim>\<open>undefined\<close> when the cell is missing (\<^verbatim>\<open>cells[i]?.innerText.trim()\<close>).
  A property is modelled as \<open>string option\<close>, \<open>None\<close> standing for \<^verbatim>\<open>undefined\<close>.
  A character is one code unit below 256.
\<close>

record entry =
  timestamp :: "string option"
  item :: "string option"
  reason :: "string option"
  quantity :: "string option"
  location :: "string option"

text \<open>JavaScript truthiness of a string-or-undefined value: defined and not empty.\<close>

definition truthy :: "string option \<Rightarrow> bool" where
  "truthy v = (case v of None \<Rightarrow> False | Some s \<Rightarrow> s \<noteq> [])"

text \<open>\<^verbatim>\<open>String.prototype.trim\<close> on the white space that fits the character model.\<close>

definition is_space :: "char \<Rightarrow> bool" where
  "is_space c = (c \<in> set [CHR 0x09, CHR 0x0A, CHR 0x0B, CHR 0x0C, CHR 0x0D, CHR 0x20, CHR 0xA0])"

definition trim :: "string \<Rightarrow> string" where
  "trim s = rev (dropWhile is_space (rev (dropWhile is_space s)))"

text \<open>\<^verbatim>\<open>cells[i]?.innerText.trim()\<close>: \<^verbatim>\<open>undefined\<close> beyond the last cell.\<close>

definition cell :: "string list \<Rightarrow> nat \<Rightarrow> string option" where
  "cell cells i = (if i < length cells then Some (trim (cells ! i)) else None)"

definition mk_entry :: "string list \<Rightarrow> entry" where
  "mk_entry cells =
     \<lparr>timestamp = cell cells 0, item = cell cells 1, reason = cell cells 2,
      quantity = cell cells 3, location = cell cells 4\<rparr>"

section \<open>History extraction\<close>

text \<open>
  \<^verbatim>\<open>src/index.js\<close>, lines 71 to 85: a row with fewer than five cells maps to
  \<^verbatim>\<open>null\<close>; the filter keeps an entry that is not \<^verbatim>\<open>null\<close> and whose
  \<^verbatim>\<open>item\<close> and \<^verbatim>\<open>timestamp\<close> are truthy. A row is the list of the
  \<^verbatim>\<open>innerText\<close> of its \<^verbatim>\<open>td\<close> cells.
\<close>

definition map_row :: "string list \<Rightarrow> entry option" where
  "map_row cells = (if length cells < 5 then None else Some (mk_entry cells))"

definition keep_entry :: "entry option \<Rightarrow> bool" where
  "keep_entry r = (case r of None \<Rightarrow> False | Some e \<Rightarrow> truthy (item e) \<and> truthy (timestamp e))"

definition latestEntries :: "string list list \<Rightarrow> entry list" where
  "latestEntries rows = map the (filter keep_entry (map map_row rows))"

text \<open>
  \<^verbatim>\<open>src/unnamed/part_000\<close>, lines 25 to 37: every row maps to an object, whatever its
  number of cells; the filter keeps an entry whose \<^verbatim>\<open>item\<close> is truthy.
\<close>

definition latestEntries_file :: "string list list \<Rightarrow> entry list" where
  "latestEntries_file rows = filter (\<lambda>e. truthy (item e)) (map mk_entry rows)"

section \<open>Change detection\<close>

text \<open>
  The same expression in both variants (\<^verbatim>\<open>src/index.js\<close> lines 94 to 96,
  \<^verbatim>\<open>src/unnamed/part_000\<close> lines 43 to 45):
  \<^verbatim>\<open>latestEntries.filter(entry => !previous.some(p => p.timestamp === entry.timestamp && p.item === entry.item))\<close>.
  Strict equality of two string-or-undefined values is equality of the options.
\<close>

definition same_identity :: "entry \<Rightarrow> entry \<Rightarrow> bool" where
  "same_identity p e = (timestamp p = timestamp e \<and> item p = item e)"

definition is_new :: "entry list \<Rightarrow> entry \<Rightarrow> bool" where
  "is_new previous e = (\<not> list_ex (\<lambda>p. same_identity p e) previous)"

definition newEntries :: "entry list \<Rightarrow> entry list \<Rightarrow> entry list" where
  "newEntries latest previous = filter (is_new previous) latest"

section \<open>The outside world and the state of a run\<close>

text \<open>
  Every \<^verbatim>\<open>await\<close> on a capability outside the program (browser, database, mail
  transport, file system) either returns or throws. A \<open>world\<close> fixes, for one run, which
  of these calls throw, the address the browser shows after the login form is submitted, the
  rows of the rendered history table, and the names of the functions the
  \<^verbatim>\<open>nodemailer\<close> module exports.
\<close>

datatype call =
    CreateTable | CreateIndex | Launch | NewContext | NewPage
  | GotoLogin | FillEmail | FillPassword | ClickSubmit | WaitForNavigation
  | GotoHistory | WaitForSelector | Evaluate
  | SelectRecent | Insert nat | TransporterVerify | SendMail | WriteFile
  | BrowserClose | PoolEnd

datatype error =
    Rejected call
  | LoginFailed
  | NotAFunction string

datatype file_contents = NoFile | Malformed | Records "entry list"

record world =
  failing :: "call list"
  url_after_login :: string
  rows :: "string list list"
  nodemailer :: "string list"
  file_after_failed_write :: file_contents

text \<open>
  The state a run acts on: the rows of table \<^verbatim>\<open>inventory_state\<close> in insertion order
  (\<open>None\<close> while the table does not exist), what the state file of the file-backed
  variant holds, whether the process is denied reading that file, whether a browser is
  running, whether the connection pool is still open, and the messages handed to the mail
  transport so far. Reading is denied by the mode of the state file when it exists, and by
  the umask for a file a run creates; \<^verbatim>\<open>fs.writeFile\<close> keeps the mode of a file
  that exists, so no write changes \<open>read_denied\<close>. The pool is created when the module
  is loaded (line 6), so it is open when a run starts. Column \<^verbatim>\<open>saved_at\<close> defaults to
  \<^verbatim>\<open>NOW()\<close> and every \<^verbatim>\<open>INSERT\<close> is a statement of its own, so insertion order
  is the order of \<^verbatim>\<open>saved_at\<close>; rows with equal \<^verbatim>\<open>saved_at\<close> are taken in
  insertion order as well.
\<close>

record sys =
  table :: "entry list option"
  state_file :: file_contents
  read_denied :: bool
  browser_open :: bool
  pool_open :: bool
  outbox :: "entry list list"

definition contents :: "sys \<Rightarrow> entry list" where
  "contents s = (case table s of None \<Rightarrow> [] | Some t \<Rightarrow> t)"

type_synonym 'a io = "sys \<Rightarrow> (error + 'a) \<times> sys"

definition ret :: "'a \<Rightarrow> 'a io" where
  "ret x s = (Inr x, s)"

definition throw :: "error \<Rightarrow> 'a io" where
  "throw e s = (Inl e, s)"

definition bind_io :: "'a io \<Rightarrow> ('a \<Rightarrow> 'b io) \<Rightarrow> 'b io" where
  "bind_io m f s = (case m s of (Inl e, s') \<Rightarrow> (Inl e, s') | (Inr x, s') \<Rightarrow> f x s')"

definition then_io :: "unit io \<Rightarrow> 'b io \<Rightarrow> 'b io" where
  "then_io m k = bind_io m (\<lambda>_. k)"

text \<open>
  \<^verbatim>\<open>try { body } finally { cleanup }\<close>: the cleanup runs whatever the body did; when
  the cleanup throws, its error replaces the outcome of the body.
\<close>

definition finally_io :: "'a io \<Rightarrow> unit io \<Rightarrow> 'a io" where
  "finally_io body cleanup s =
     (case body s of (r, s') \<Rightarrow>
        (case cleanup s' of (Inl e, s'') \<Rightarrow> (Inl e, s'') | (Inr _, s'') \<Rightarrow> (r, s'')))"

definition await :: "world \<Rightarrow> call \<Rightarrow> unit io" where
  "await w c s = (if c \<in> set (failing w) then (Inl (Rejected c), s) else (Inr (), s))"

fun awaits :: "world \<Rightarrow> call list \<Rightarrow> unit io" where
  "awaits w [] = ret ()"
| "awaits w (c # cs) = then_io (await w c) (awaits w cs)"

definition modify :: "(sys \<Rightarrow> sys) \<Rightarrow> unit io" where
  "modify f s = (Inr (), f s)"

text \<open>\<^verbatim>\<open>String.prototype.includes\<close>.\<close>

fun starts_with :: "string \<Rightarrow> string \<Rightarrow> bool" where
  "starts_with s [] = True"
| "starts_with [] (c # cs) = False"
| "starts_with (x # xs) (c # cs) = (x = c \<and> starts_with xs cs)"

fun str_includes :: "string \<Rightarrow> string \<Rightarrow> bool" where
  "str_includes [] sub = (sub = [])"
| "str_includes (x # xs) sub = (starts_with (x # xs) sub \<or> str_includes xs sub)"

definition launch :: "world \<Rightarrow> unit io" where
  "launch w = then_io (await w Launch) (modify (\<lambda>s. s\<lparr>browser_open := True\<rparr>))"

definition browser_close :: "world \<Rightarrow> unit io" where
  "browser_close w = then_io (await w BrowserClose) (modify (\<lambda>s. s\<lparr>browser_open := False\<rparr>))"

definition pool_end :: "world \<Rightarrow> unit io" where
  "pool_end w = then_io (await w PoolEnd) (modify (\<lambda>s. s\<lparr>pool_open := False\<rparr>))"

section \<open>The table-backed variant, \<^verbatim>\<open>src/index.js\<close>\<close>

text \<open>
  \<^verbatim>\<open>initDatabase\<close>: \<^verbatim>\<open>CREATE TABLE IF NOT EXISTS\<close> makes an absent table an empty
  one and leaves an existing table alone; the index holds no rows.
\<close>

definition initDatabase :: "world \<Rightarrow> unit io" where
  "initDatabase w =
     then_io (await w CreateTable)
    (then_io (modify (\<lambda>s. s\<lparr>table := Some (contents s)\<rparr>))
             (await w CreateIndex))"

text \<open>
  \<^verbatim>\<open>getPreviousEntries\<close>: \<^verbatim>\<open>ORDER BY saved_at DESC LIMIT 100\<close>, the last hundred
  rows inserted, latest first. The query throws on a table that does not exist.
\<close>

definition getPreviousEntries :: "world \<Rightarrow> (entry list) io" where
  "getPreviousEntries w =
     then_io (await w SelectRecent)
       (\<lambda>s. case table s of
               None \<Rightarrow> (Inl (Rejected SelectRecent), s)
             | Some t \<Rightarrow> (Inr (take 100 (rev t)), s))"

text \<open>
  \<^verbatim>\<open>saveState\<close>: one \<^verbatim>\<open>INSERT\<close> for each entry, in order, each awaited before the
  next, outside any transaction. \<open>Insert k\<close> is the insert of the entry at index \<open>k\<close>.
\<close>

definition insert_row :: "world \<Rightarrow> nat \<Rightarrow> entry \<Rightarrow> unit io" where
  "insert_row w k e =
     then_io (await w (Insert k))
       (\<lambda>s. case table s of
               None \<Rightarrow> (Inl (Rejected (Insert k)), s)
             | Some t \<Rightarrow> (Inr (), s\<lparr>table := Some (t @ [e])\<rparr>))"

fun saveState_from :: "world \<Rightarrow> nat \<Rightarrow> entry list \<Rightarrow> unit io" where
  "saveState_from w k [] = ret ()"
| "saveState_from w k (e # es) = then_io (insert_row w k e) (saveState_from w (Suc k) es)"

definition saveState :: "world \<Rightarrow> entry list \<Rightarrow> unit io" where
  "saveState w entries = saveState_from w 0 entries"

text \<open>
  Modelled from the spec: the end of \<^verbatim>\<open>sendEmail\<close> of \<^verbatim>\<open>src/index.js\<close>. The
  file stops at line 237, inside the plain-text body and before the message is sent. The
  notification capability of the spec,
  \<^verbatim>\<open>send(subject, htmlBody, textBody) -> success|failure\<close>, is one call that throws
  or hands the message for these entries to the transport.
\<close>

definition dispatch :: "world \<Rightarrow> entry list \<Rightarrow> unit io" where
  "dispatch w entries =
     then_io (await w SendMail) (modify (\<lambda>s. s\<lparr>outbox := outbox s @ [entries]\<rparr>))"

text \<open>
  \<^verbatim>\<open>sendEmail\<close>, lines 166 to 237: the call
  \<^verbatim>\<open>nodemailer.createTransporter(...)\<close> throws a \<^verbatim>\<open>TypeError\<close> when the module
  exports no function of that name. With a transporter in hand the connection is verified
  and the two bodies are built from the entries by template literals, which do not throw.
\<close>

definition sendEmail :: "world \<Rightarrow> entry list \<Rightarrow> unit io" where
  "sendEmail w entries =
     (if ''createTransporter'' \<in> set (nodemailer w)
      then then_io (await w TransporterVerify) (dispatch w entries)
      else throw (NotAFunction ''nodemailer.createTransporter''))"

text \<open>The body of the \<^verbatim>\<open>try\<close> block of \<^verbatim>\<open>checkInventory\<close>, lines 40 to 111.\<close>

definition notify_and_save :: "world \<Rightarrow> entry list \<Rightarrow> unit io" where
  "notify_and_save w new =
     (if length new > 0 then then_io (sendEmail w new) (saveState w new) else ret ())"

definition monitor :: "world \<Rightarrow> unit io" where
  "monitor w =
     then_io (awaits w [GotoLogin, FillEmail, FillPassword, ClickSubmit, WaitForNavigation])
    (then_io (if str_includes (url_after_login w) ''/login'' then throw LoginFailed else ret ())
    (then_io (awaits w [GotoHistory, WaitForSelector, Evaluate])
    (bind_io (getPreviousEntries w)
       (\<lambda>previous. notify_and_save w (newEntries (latestEntries (rows w)) previous)))))"

definition checkInventory :: "world \<Rightarrow> unit io" where
  "checkInventory w =
     then_io (initDatabase w)
    (then_io (launch w)
    (then_io (await w NewContext)
    (then_io (await w NewPage)
    (finally_io (monitor w) (then_io (browser_close w) (pool_end w))))))"

text \<open>
  \<^verbatim>\<open>main\<close>: exit code 0 after a run that returned; after a run that threw, the pool
  is ended and the exit code is 1. A pool ends once: a second \<^verbatim>\<open>pool.end()\<close>
  rejects (\<^verbatim>\<open>Called end on pool more than once\<close>). After a failure inside the
  \<^verbatim>\<open>try\<close> block the \<^verbatim>\<open>finally\<close> block has ended the pool already, so the
  \<^verbatim>\<open>pool.end()\<close> of the \<^verbatim>\<open>catch\<close> rejects. Whenever that
  \<^verbatim>\<open>pool.end()\<close> rejects, \<^verbatim>\<open>process.exit\<close> is not reached.
\<close>

datatype exit = Exit nat | Unhandled error

definition main :: "world \<Rightarrow> sys \<Rightarrow> exit \<times> sys" where
  "main w s =
     (case checkInventory w s of
        (Inr _, s') \<Rightarrow> (Exit 0, s')
      | (Inl e, s') \<Rightarrow>
          (if pool_open s'
           then (case pool_end w s' of
                   (Inr _, s'') \<Rightarrow> (Exit 1, s'')
                 | (Inl e', s'') \<Rightarrow> (Unhandled e', s''))
           else (Unhandled (Rejected PoolEnd), s')))"

text \<open>The new set a run of \<^verbatim>\<open>src/index.js\<close> computes from the page and the table.\<close>

definition new_of :: "world \<Rightarrow> sys \<Rightarrow> entry list" where
  "new_of w s = newEntries (latestEntries (rows w)) (take 100 (rev (contents s)))"

section \<open>The file-backed variant, \<^verbatim>\<open>src/unnamed/part_000\<close>\<close>

text \<open>
  Line 41: \<^verbatim>\<open>try { previous = JSON.parse(await fs.readFile(...)) } catch (e) {}\<close>.
  Whatever \<^verbatim>\<open>readFile\<close> or \<^verbatim>\<open>JSON.parse\<close> throws is swallowed and
  \<^verbatim>\<open>previous\<close> stays \<^verbatim>\<open>[]\<close>. The state file is absent, not JSON (an empty
  or torn file included), or the array of records a former run wrote, and
  \<^verbatim>\<open>readFile\<close> rejects when reading is denied, whatever the file holds; a file
  holding other valid JSON, which the program never writes, is left out.
\<close>

definition load_previous :: "(entry list) io" where
  "load_previous s =
     (Inr (if read_denied s then []
           else case state_file s of Records es \<Rightarrow> es | _ \<Rightarrow> []), s)"

text \<open>
  Line 56: \<^verbatim>\<open>fs.writeFile(STATE_FILE, JSON.stringify(...))\<close> replaces what the
  file holds and leaves its mode alone: a file the process may write and not read takes
  the records and stays unreadable. What a write that throws leaves behind is up to the
  file system, so the world supplies it.
\<close>

definition writeFile :: "world \<Rightarrow> entry list \<Rightarrow> unit io" where
  "writeFile w es s =
     (if WriteFile \<in> set (failing w)
      then (Inl (Rejected WriteFile), s\<lparr>state_file := file_after_failed_write w\<rparr>)
      else (Inr (), s\<lparr>state_file := Records es\<rparr>))"

text \<open>
  \<^verbatim>\<open>sendEmail\<close>, lines 61 to 94: no verification step; the body is built by a
  template literal and \<^verbatim>\<open>transporter.sendMail\<close> sends the message.
\<close>

definition sendMail :: "world \<Rightarrow> entry list \<Rightarrow> unit io" where
  "sendMail w entries =
     then_io (await w SendMail) (modify (\<lambda>s. s\<lparr>outbox := outbox s @ [entries]\<rparr>))"

definition sendEmail_file :: "world \<Rightarrow> entry list \<Rightarrow> unit io" where
  "sendEmail_file w entries =
     (if ''createTransporter'' \<in> set (nodemailer w)
      then sendMail w entries
      else throw (NotAFunction ''nodemailer.createTransporter''))"

definition checkInventory_file :: "world \<Rightarrow> unit io" where
  "checkInventory_file w =
     then_io (launch w)
    (then_io (awaits w [NewPage, GotoLogin, FillEmail, FillPassword, ClickSubmit,
                        WaitForNavigation, GotoHistory, WaitForSelector, Evaluate])
    (bind_io load_previous
       (\<lambda>previous.
          then_io (if length (newEntries (latestEntries_file (rows w)) previous) > 0
                   then sendEmail_file w (newEntries (latestEntries_file (rows w)) previous)
                   else ret ())
         (then_io (writeFile w (take 20 (latestEntries_file (rows w))))
                  (browser_close w)))))"

definition new_of_file :: "world \<Rightarrow> sys \<Rightarrow> entry list" where
  "new_of_file w s =
     newEntries (latestEntries_file (rows w))
       (if read_denied s then []
        else case state_file s of Records es \<Rightarrow> es | _ \<Rightarrow> [])"

section \<open>Summary of a run's effect on store and outbox\<close>

text \<open>
  \<open>store_outcome w new s r s' n sent\<close> relates the state before and after a piece of a run
  of \<^verbatim>\<open>src/index.js\<close> that ended with result \<open>r\<close>: the first \<open>n\<close> records of
  \<open>new\<close> were appended to the table, the message for \<open>new\<close> was handed to the transport
  exactly when \<open>sent\<close>, and the state file was left alone.
\<close>

definition store_outcome ::
  "world \<Rightarrow> entry list \<Rightarrow> sys \<Rightarrow> (error + unit) \<Rightarrow> sys \<Rightarrow> nat \<Rightarrow> bool \<Rightarrow> bool" where
  "store_outcome w new s r s' n sent =
     (n \<le> length new \<and> contents s' = contents s @ take n new
      \<and> outbox s' = (if sent then outbox s @ [new] else outbox s)
      \<and> state_file s' = state_file s
      \<and> (0 < n \<longrightarrow> sent)
      \<and> (sent \<longrightarrow> new \<noteq> [] \<and> ''createTransporter'' \<in> set (nodemailer w))
      \<and> (r = Inr () \<longrightarrow> n = length new \<and> (new \<noteq> [] \<longrightarrow> sent)))"

text \<open>The identity key of a record.\<close>

definition identity_key :: "entry \<Rightarrow> string option \<times> string option" where
  "identity_key e = (timestamp e, item e)"

section \<open>Concrete pages, stores and worlds\<close>

definition widget_row :: "string list" where
  "widget_row = [''2024-05-01 10:15'', ''Widget'', ''Sale'', ''-1'', ''Main store'']"

definition widget_sale :: entry where
  "widget_sale = \<lparr>timestamp = Some ''2024-05-01 10:15'', item = Some ''Widget'',
     reason = Some ''Sale'', quantity = Some ''-1'', location = Some ''Main store''\<rparr>"

text \<open>The same identity as \<open>widget_sale\<close>, every other field different.\<close>

definition widget_refund :: entry where
  "widget_refund = widget_sale\<lparr>reason := Some ''Refund'', quantity := Some ''1'',
     location := Some ''Returns desk''\<rparr>"

definition gadget_row :: "string list" where
  "gadget_row = ['' 2024-05-01 09:40 '', ''Gadget'', ''Receive'', ''12'', ''Warehouse'']"

definition gadget_receipt :: entry where
  "gadget_receipt = \<lparr>timestamp = Some ''2024-05-01 09:40'', item = Some ''Gadget'',
     reason = Some ''Receive'', quantity = Some ''12'', location = Some ''Warehouse''\<rparr>"

text \<open>A row of two cells, and a row of five cells whose first cell holds only blanks.\<close>

definition short_row :: "string list" where
  "short_row = [''2024-05-01 11:00'', ''Sprocket'']"

definition untimed_row :: "string list" where
  "untimed_row = [''  '', ''Sprocket'', ''Damage'', ''-3'', ''Main store'']"

text \<open>
  A world in which no call throws and the login lands on the dashboard. The module
  exports the names \<^verbatim>\<open>nodemailer\<close> documents; \<open>patched\<close> adds the name the
  source calls.
\<close>

definition calm :: "string list list \<Rightarrow> world" where
  "calm rs = \<lparr>failing = [], url_after_login = ''https://backoffice.loyverse.com/dashboard'',
     rows = rs, nodemailer = [''createTransport'', ''createTestAccount'', ''getTestMessageUrl''],
     file_after_failed_write = Malformed\<rparr>"

definition patched :: "world \<Rightarrow> world" where
  "patched w = w\<lparr>nodemailer := ''createTransporter'' # nodemailer w\<rparr>"

text \<open>
  Before the first run: no table, no state file, reading not denied, no browser, the pool
  created.
\<close>

definition fresh :: sys where
  "fresh = \<lparr>table = None, state_file = NoFile, read_denied = False, browser_open = False,
     pool_open = True, outbox = []\<rparr>"

text \<open>The \<open>n\<close>-th of a series of records with pairwise different timestamps.\<close>

definition nth_row :: "nat \<Rightarrow> string list" where
  "nth_row n = [''no.'' @ replicate n CHR ''I'', ''Widget'', ''Sale'', ''-1'', ''Main store'']"

definition nth_entry :: "nat \<Rightarrow> entry" where
  "nth_entry n = \<lparr>timestamp = Some (''no.'' @ replicate n CHR ''I''), item = Some ''Widget'',
     reason = Some ''Sale'', quantity = Some ''-1'', location = Some ''Main store''\<rparr>"

text \<open>A table that holds a hundred records, and the page that shows one more.\<close>

definition hundred :: sys where
  "hundred = fresh\<lparr>table := Some (map nth_entry [0..<100])\<rparr>"

definition hundred_and_one :: sys where
  "hundred_and_one = fresh\<lparr>table := Some (map nth_entry [0..<100] @ [nth_entry 100])\<rparr>"

definition next_page :: world where
  "next_page = calm [nth_row 100, nth_row 0]"

text \<open>A page of twenty-one rows, one more than the file-backed variant keeps.\<close>

definition long_page :: world where
  "long_page = calm (map nth_row [0..<21])"

definition first_twenty :: sys where
  "first_twenty = fresh\<lparr>state_file := Records (map nth_entry [0..<20]),
     outbox := [map nth_entry [0..<21]]\<rparr>"

text \<open>
  A state file the process may write and not read, before and after a run over the page
  that shows the widget sale.
\<close>

definition write_only :: sys where
  "write_only = fresh\<lparr>state_file := Records [], read_denied := True\<rparr>"

definition write_only_after :: sys where
  "write_only_after = fresh\<lparr>state_file := Records [widget_sale], read_denied := True,
     outbox := [[widget_sale]]\<rparr>"

section \<open>Properties of the detector and the extractor\<close>

lemma is_new_iff:
  "is_new previous e \<longleftrightarrow> (\<forall>p \<in> set previous. \<not> (timestamp p = timestamp e \<and> item p = item e))"
  by (simp add: is_new_def list_ex_iff same_identity_def)

lemma is_new_key:
  "is_new previous e \<longleftrightarrow>
     (timestamp e, item e) \<notin> set (map (\<lambda>p. (timestamp p, item p)) previous)"
  by (auto simp: is_new_iff image_iff)

lemma truthy_Some: "truthy v \<longleftrightarrow> (\<exists>s. v = Some s \<and> s \<noteq> [])"
  by (cases v) (simp_all add: truthy_def)

lemma map_row_Some:
  "map_row cells = Some e \<longleftrightarrow> 5 \<le> length cells \<and> e = mk_entry cells"
  by (auto simp: map_row_def)

lemma mk_entry_fields:
  "5 \<le> length cells \<Longrightarrow>
     timestamp (mk_entry cells) = Some (trim (cells ! 0)) \<and>
     item (mk_entry cells) = Some (trim (cells ! 1)) \<and>
     reason (mk_entry cells) = Some (trim (cells ! 2)) \<and>
     quantity (mk_entry cells) = Some (trim (cells ! 3)) \<and>
     location (mk_entry cells) = Some (trim (cells ! 4))"
  by (auto simp: mk_entry_def cell_def)

lemma latestEntries_wellformed:
  assumes "e \<in> set (latestEntries rs)"
  shows "\<exists>cells \<in> set rs. 5 \<le> length cells \<and> e = mk_entry cells
           \<and> truthy (timestamp e) \<and> truthy (item e)
           \<and> reason e \<noteq> None \<and> quantity e \<noteq> None \<and> location e \<noteq> None"
proof -
  from assms obtain cells where c: "cells \<in> set rs" "keep_entry (map_row cells)"
      "e = the (map_row cells)"
    by (auto simp: latestEntries_def)
  from c(2) obtain e' where e': "map_row cells = Some e'" "truthy (item e')" "truthy (timestamp e')"
    by (cases "map_row cells") (auto simp: keep_entry_def)
  from e'(1) have len: "5 \<le> length cells" and eq: "e' = mk_entry cells"
    by (simp_all add: map_row_Some)
  from c(3) e'(1) have "e = e'" by simp
  with c(1) len eq e'(2,3) mk_entry_fields [OF len] show ?thesis
    by auto
qed

lemma latestEntries_drops:
  "length cells < 5 \<or> \<not> truthy (cell cells 0) \<or> \<not> truthy (cell cells 1)
     \<Longrightarrow> latestEntries (before @ cells # after) = latestEntries (before @ after)"
  by (auto simp: latestEntries_def map_row_def keep_entry_def mk_entry_def)

lemma detect_after_append:
  "newEntries latest (rev (t @ newEntries latest (rev t))) = []"
  by (auto simp: newEntries_def filter_empty_conv is_new_iff)

lemma rerun_within_window:
  assumes "length t + length (newEntries latest (take 100 (rev t))) \<le> 100"
  shows "newEntries latest (take 100 (rev (t @ newEntries latest (take 100 (rev t))))) = []"
proof -
  from assms have a: "take 100 (rev t) = rev t" by simp
  from assms have "length (rev (t @ newEntries latest (rev t))) \<le> 100"
    by (simp add: a)
  then have "take 100 (rev (t @ newEntries latest (rev t))) = rev (t @ newEntries latest (rev t))"
    by (rule take_all)
  then show ?thesis
    by (simp only: a detect_after_append)
qed

lemma rerun_file_within_window:
  assumes "length latest \<le> 20"
  shows "newEntries latest (take 20 latest) = []"
  using assms by (auto simp: newEntries_def filter_empty_conv is_new_iff)


subsection \<open>Sequencing\<close>

lemma then_io_apply:
  "then_io m k s = (case m s of (Inl e, s') \<Rightarrow> (Inl e, s') | (Inr _, s') \<Rightarrow> k s')"
  by (simp add: then_io_def bind_io_def)

lemma bind_ioE:
  assumes "bind_io m f s = (r, s')"
  obtains (failed) e where "m s = (Inl e, s')" "r = Inl e"
        | (passed) x s1 where "m s = (Inr x, s1)" "f x s1 = (r, s')"
  using assms by (auto simp: bind_io_def split: prod.splits sum.splits)

lemma then_ioE:
  assumes "then_io m k s = (r, s')"
  obtains (failed) e where "m s = (Inl e, s')" "r = Inl e"
        | (passed) s1 where "m s = (Inr (), s1)" "k s1 = (r, s')"
  using assms by (auto simp: then_io_def elim!: bind_ioE)

lemma finally_ioE:
  assumes "finally_io body cleanup s = (r, s')"
  obtains rb sb rc where "body s = (rb, sb)" "cleanup sb = (rc, s')"
    "case rc of Inl e \<Rightarrow> r = Inl e | Inr _ \<Rightarrow> r = rb"
  using assms by (auto simp: finally_io_def split: prod.splits sum.splits)

lemma await_cases:
  assumes "await w c s = (r, s')"
  shows "s' = s \<and> (if c \<in> set (failing w) then r = Inl (Rejected c) else r = Inr ())"
  using assms by (auto simp: await_def split: if_splits)

lemma awaits_cases:
  assumes "awaits w cs s = (r, s')"
  shows "s' = s \<and> (if set cs \<inter> set (failing w) = {} then r = Inr ()
                       else \<exists>c \<in> set cs \<inter> set (failing w). r = Inl (Rejected c))"
  using assms
proof (induction cs)
  case Nil
  then show ?case by (simp add: ret_def)
next
  case (Cons c cs)
  from Cons.prems have "then_io (await w c) (awaits w cs) s = (r, s')"
    by simp
  then show ?case
  proof (cases rule: then_ioE)
    case (failed e)
    then show ?thesis by (auto dest!: await_cases split: if_splits)
  next
    case (passed s1)
    from passed(1) have "s1 = s" "c \<notin> set (failing w)"
      by (auto dest!: await_cases split: if_splits)
    with passed(2) Cons.IH show ?thesis by auto
  qed
qed

lemma launch_cases:
  assumes "launch w s = (r, s')"
  shows "(r = Inl (Rejected Launch) \<and> s' = s \<and> Launch \<in> set (failing w))
       \<or> (r = Inr () \<and> s' = s\<lparr>browser_open := True\<rparr>)"
  using assms by (auto simp: launch_def modify_def elim!: then_ioE dest!: await_cases split: if_splits)

lemma browser_close_cases:
  assumes "browser_close w s = (r, s')"
  shows "(r = Inl (Rejected BrowserClose) \<and> s' = s \<and> BrowserClose \<in> set (failing w))
       \<or> (r = Inr () \<and> s' = s\<lparr>browser_open := False\<rparr> \<and> BrowserClose \<notin> set (failing w))"
  using assms
  by (auto simp: browser_close_def modify_def elim!: then_ioE dest!: await_cases split: if_splits)

lemma pool_end_cases:
  assumes "pool_end w s = (r, s')"
  shows "(r = Inl (Rejected PoolEnd) \<and> s' = s \<and> PoolEnd \<in> set (failing w))
       \<or> (r = Inr () \<and> s' = s\<lparr>pool_open := False\<rparr> \<and> PoolEnd \<notin> set (failing w))"
  using assms
  by (auto simp: pool_end_def modify_def elim!: then_ioE dest!: await_cases split: if_splits)

lemma initDatabase_cases:
  assumes "initDatabase w s = (r, s')"
  shows "(r = Inl (Rejected CreateTable) \<and> s' = s)
       \<or> (s' = s\<lparr>table := Some (contents s)\<rparr>
            \<and> (r = Inl (Rejected CreateIndex) \<or> r = Inr ()))"
  using assms
  by (auto simp: initDatabase_def modify_def elim!: then_ioE dest!: await_cases split: if_splits)

lemma getPreviousEntries_cases:
  assumes "getPreviousEntries w s = (r, s')"
  shows "s' = s \<and>
         (if SelectRecent \<in> set (failing w) \<or> table s = None then r = Inl (Rejected SelectRecent)
          else r = Inr (take 100 (rev (contents s))))"
  using assms
  by (auto simp: getPreviousEntries_def contents_def elim!: then_ioE dest!: await_cases
           split: if_splits option.splits)

lemma dispatch_cases:
  assumes "dispatch w es s = (r, s')"
  shows "(r = Inl (Rejected SendMail) \<and> s' = s \<and> SendMail \<in> set (failing w))
       \<or> (r = Inr () \<and> s' = s\<lparr>outbox := outbox s @ [es]\<rparr>)"
  using assms
  by (auto simp: dispatch_def modify_def elim!: then_ioE dest!: await_cases split: if_splits)

lemma sendMail_cases:
  assumes "sendMail w es s = (r, s')"
  shows "(r = Inl (Rejected SendMail) \<and> s' = s \<and> SendMail \<in> set (failing w))
       \<or> (r = Inr () \<and> s' = s\<lparr>outbox := outbox s @ [es]\<rparr>)"
  using assms
  by (auto simp: sendMail_def modify_def elim!: then_ioE dest!: await_cases split: if_splits)

lemma sendEmail_cases:
  assumes "sendEmail w es s = (r, s')"
  shows "((\<exists>e. r = Inl e) \<and> s' = s)
       \<or> (r = Inr () \<and> s' = s\<lparr>outbox := outbox s @ [es]\<rparr>
            \<and> ''createTransporter'' \<in> set (nodemailer w))"
  using assms
  by (auto simp: sendEmail_def throw_def elim!: then_ioE dest!: await_cases dispatch_cases
           split: if_splits)

lemma sendEmail_file_cases:
  assumes "sendEmail_file w es s = (r, s')"
  shows "((\<exists>e. r = Inl e) \<and> s' = s)
       \<or> (r = Inr () \<and> s' = s\<lparr>outbox := outbox s @ [es]\<rparr>
            \<and> ''createTransporter'' \<in> set (nodemailer w))"
  using assms
  by (auto simp: sendEmail_file_def throw_def dest!: sendMail_cases split: if_splits)

lemma insert_row_cases:
  assumes "insert_row w k e s = (r, s')" "table s = Some t"
  shows "(r = Inl (Rejected (Insert k)) \<and> s' = s \<and> Insert k \<in> set (failing w))
       \<or> (r = Inr () \<and> s' = s\<lparr>table := Some (t @ [e])\<rparr> \<and> Insert k \<notin> set (failing w))"
  using assms
  by (auto simp: insert_row_def elim!: then_ioE dest!: await_cases split: if_splits)

lemma saveState_from_cases:
  assumes "saveState_from w k es s = (r, s')" "table s = Some t"
  shows "\<exists>n \<le> length es. s' = s\<lparr>table := Some (t @ take n es)\<rparr>
           \<and> ((r = Inr () \<and> n = length es)
              \<or> (n < length es \<and> r = Inl (Rejected (Insert (k + n)))
                   \<and> Insert (k + n) \<in> set (failing w)))"
  using assms
proof (induction es arbitrary: k s t)
  case Nil
  then show ?case by (auto simp: ret_def)
next
  case (Cons e es)
  from Cons.prems(1) have "then_io (insert_row w k e) (saveState_from w (Suc k) es) s = (r, s')"
    by simp
  then show ?case
  proof (cases rule: then_ioE)
    case (failed x)
    with Cons.prems(2) have "r = Inl (Rejected (Insert k))" "s' = s" "Insert k \<in> set (failing w)"
      by (auto dest!: insert_row_cases)
    with Cons.prems(2) show ?thesis
      by (intro exI [of _ 0]) simp
  next
    case (passed s1)
    with Cons.prems(2) have s1: "s1 = s\<lparr>table := Some (t @ [e])\<rparr>"
      by (auto dest!: insert_row_cases)
    then have "table s1 = Some (t @ [e])" by simp
    from Cons.IH [OF passed(2) this]
    obtain n where n: "n \<le> length es" "s' = s1\<lparr>table := Some ((t @ [e]) @ take n es)\<rparr>"
      "(r = Inr () \<and> n = length es)
         \<or> (n < length es \<and> r = Inl (Rejected (Insert (Suc k + n)))
              \<and> Insert (Suc k + n) \<in> set (failing w))"
      by blast
    with s1 show ?thesis
      by (intro exI [of _ "Suc n"]) auto
  qed
qed

subsection \<open>What a run does to the store and the outbox\<close>

lemma store_outcome_quiet:
  assumes "contents s' = contents s" "outbox s' = outbox s" "state_file s' = state_file s"
  shows "store_outcome w new s (Inl e) s' 0 False"
  using assms by (simp add: store_outcome_def)

lemma store_outcome_frame:
  assumes "store_outcome w new s1 r1 s2 n sent"
    and "contents s1 = contents s" "outbox s1 = outbox s" "state_file s1 = state_file s"
    and "contents s' = contents s2" "outbox s' = outbox s2" "state_file s' = state_file s2"
    and "r = Inr () \<longrightarrow> r1 = Inr ()"
  shows "store_outcome w new s r s' n sent"
  using assms unfolding store_outcome_def by metis

lemma saveState_cases:
  assumes "saveState w es s = (r, s')" "table s = Some t"
  shows "\<exists>n \<le> length es. s' = s\<lparr>table := Some (t @ take n es)\<rparr>
           \<and> ((r = Inr () \<and> n = length es)
              \<or> (n < length es \<and> r = Inl (Rejected (Insert n)) \<and> Insert n \<in> set (failing w)))"
  using saveState_from_cases [of w 0 es s r s' t] assms by (simp add: saveState_def)

lemma notify_and_save_outcome:
  assumes "notify_and_save w new s = (r, s')" "table s = Some t"
  shows "\<exists>n sent. store_outcome w new s r s' n sent
           \<and> browser_open s' = browser_open s \<and> pool_open s' = pool_open s"
proof (cases "new = []")
  case True
  with assms have "r = Inr ()" "s' = s"
    by (simp_all add: notify_and_save_def ret_def)
  with True show ?thesis
    by (intro exI [of _ 0] exI [of _ False]) (simp add: store_outcome_def)
next
  case False
  with assms(1) have "then_io (sendEmail w new) (saveState w new) s = (r, s')"
    by (simp add: notify_and_save_def)
  then show ?thesis
  proof (cases rule: then_ioE)
    case (failed e)
    then have "s' = s" by (auto dest!: sendEmail_cases)
    with failed(2) show ?thesis
      by (intro exI [of _ 0] exI [of _ False]) (simp add: store_outcome_def)
  next
    case (passed s1)
    then have s1: "s1 = s\<lparr>outbox := outbox s @ [new]\<rparr>"
      and nm: "''createTransporter'' \<in> set (nodemailer w)"
      by (auto dest!: sendEmail_cases)
    from s1 assms(2) have "table s1 = Some t" by simp
    from saveState_cases [OF passed(2) this]
    obtain n where n: "n \<le> length new" "s' = s1\<lparr>table := Some (t @ take n new)\<rparr>"
      "r = Inr () \<longrightarrow> n = length new"
      by auto
    with s1 nm False assms(2) show ?thesis
      by (intro exI [of _ n] exI [of _ True]) (simp add: contents_def store_outcome_def)
  qed
qed

lemma monitor_outcome:
  assumes "monitor w s = (r, s')" "table s = Some t"
  shows "\<exists>n sent. store_outcome w (new_of w s) s r s' n sent
           \<and> browser_open s' = browser_open s \<and> pool_open s' = pool_open s"
proof -
  have quiet: ?thesis if "r = Inl e" "s' = s" for e
    using that by (intro exI [of _ 0] exI [of _ False]) (simp add: store_outcome_def)
  from assms(1) show ?thesis
    unfolding monitor_def
  proof (cases rule: then_ioE)
    case (failed e)
    from awaits_cases [OF failed(1)] failed(2) show ?thesis by (intro quiet) simp_all
  next
    case (passed s1)
    from awaits_cases [OF passed(1)] have s1: "s1 = s" by simp
    from passed(2) show ?thesis
    proof (cases rule: then_ioE)
      case (failed e)
      with s1 show ?thesis by (intro quiet) (auto simp: throw_def ret_def split: if_splits)
    next
      case (passed s2)
      with s1 have s2: "s2 = s" by (auto simp: throw_def ret_def split: if_splits)
      from passed(2) show ?thesis
      proof (cases rule: then_ioE)
        case (failed e)
        from awaits_cases [OF failed(1)] failed(2) s2 show ?thesis by (intro quiet) simp_all
      next
        case (passed s3)
        from awaits_cases [OF passed(1)] s2 have s3: "s3 = s" by simp
        from passed(2) show ?thesis
        proof (cases rule: bind_ioE)
          case (failed e)
          from getPreviousEntries_cases [OF failed(1)] failed(2) s3 show ?thesis
            by (intro quiet) simp_all
        next
          case (passed previous s4)
          from getPreviousEntries_cases [OF passed(1)] assms(2) s3
          have "s4 = s" "previous = take 100 (rev (contents s))"
            by (auto split: if_splits)
          with passed(2) have "notify_and_save w (new_of w s) s = (r, s')"
            by (simp add: new_of_def)
          from notify_and_save_outcome [OF this assms(2)] show ?thesis .
        qed
      qed
    qed
  qed
qed

lemma cleanup_cases:
  assumes "then_io (browser_close w) (pool_end w) s = (r, s')"
  shows "table s' = table s \<and> outbox s' = outbox s \<and> state_file s' = state_file s
       \<and> (r = Inr () \<longrightarrow> \<not> browser_open s' \<and> \<not> pool_open s')
       \<and> (BrowserClose \<notin> set (failing w) \<longrightarrow> \<not> browser_open s')
       \<and> (BrowserClose \<notin> set (failing w) \<and> PoolEnd \<notin> set (failing w) \<longrightarrow> r = Inr ())"
  using assms
  by (cases rule: then_ioE) (auto dest!: browser_close_cases pool_end_cases)

lemma new_of_cong: "contents s1 = contents s \<Longrightarrow> new_of w s1 = new_of w s"
  by (simp add: new_of_def)

lemma checkInventory_outcome:
  assumes "checkInventory w s = (r, s')"
  shows "\<exists>n sent. store_outcome w (new_of w s) s r s' n sent"
proof -
  have quiet: ?thesis
    if "r = Inl e" "contents s' = contents s" "outbox s' = outbox s"
       "state_file s' = state_file s" for e
    using that by (intro exI [of _ 0] exI [of _ False]) (simp add: store_outcome_def)
  from assms show ?thesis
    unfolding checkInventory_def
  proof (cases rule: then_ioE)
    case (failed e)
    from initDatabase_cases [OF failed(1)]
    have "s' = s \<or> s' = s\<lparr>table := Some (contents s)\<rparr>" by auto
    then have "contents s' = contents s" "outbox s' = outbox s" "state_file s' = state_file s"
      by (auto simp: contents_def)
    with failed(2) show ?thesis by (rule quiet)
  next
    case (passed s1)
    from initDatabase_cases [OF passed(1)] have s1: "s1 = s\<lparr>table := Some (contents s)\<rparr>"
      by auto
    from passed(2) show ?thesis
    proof (cases rule: then_ioE)
      case (failed e)
      from launch_cases [OF failed(1)] s1
      have "contents s' = contents s" "outbox s' = outbox s" "state_file s' = state_file s"
        by (auto simp: contents_def)
      with failed(2) show ?thesis by (rule quiet)
    next
      case (passed s2)
      from launch_cases [OF passed(1)] s1
      have s2: "s2 = s\<lparr>table := Some (contents s), browser_open := True\<rparr>"
        by auto
      then have t2: "table s2 = Some (contents s)"
        and c2: "contents s2 = contents s" "outbox s2 = outbox s" "state_file s2 = state_file s"
        by (simp_all add: contents_def)
      from passed(2) show ?thesis
      proof (cases rule: then_ioE)
        case (failed e)
        from await_cases [OF failed(1)] have "s' = s2" by simp
        with c2 failed(2) show ?thesis by (intro quiet) simp_all
      next
        case (passed s3)
        from await_cases [OF passed(1)] have s3: "s3 = s2" by simp
        from passed(2) show ?thesis
        proof (cases rule: then_ioE)
          case (failed e)
          from await_cases [OF failed(1)] s3 have "s' = s2" by simp
          with c2 failed(2) show ?thesis by (intro quiet) simp_all
        next
          case (passed s4)
          from await_cases [OF passed(1)] s3 have s4: "s4 = s2" by simp
          from passed(2) show ?thesis
          proof (cases rule: finally_ioE)
            case (1 rb sb rc)
            from monitor_outcome [OF 1(1) [unfolded s4] t2]
            obtain n where "\<exists>sent. store_outcome w (new_of w s2) s2 rb sb n sent
                \<and> browser_open sb = browser_open s2 \<and> pool_open sb = pool_open s2" ..
            then obtain sent where o2: "store_outcome w (new_of w s2) s2 rb sb n sent
                \<and> browser_open sb = browser_open s2 \<and> pool_open sb = pool_open s2" ..
            then have o: "store_outcome w (new_of w s2) s2 rb sb n sent" ..
            have nw: "new_of w s2 = new_of w s"
              by (rule new_of_cong [OF c2(1)])
            from cleanup_cases [OF 1(2)]
            have c: "contents s' = contents sb" "outbox s' = outbox sb"
              "state_file s' = state_file sb"
              by (simp_all add: contents_def)
            from 1(3) have "r = Inr () \<longrightarrow> rb = Inr ()"
              by (auto split: sum.splits)
            from store_outcome_frame [OF o [unfolded nw] c2 c this] show ?thesis
              by blast
          qed
        qed
      qed
    qed
  qed
qed


lemma load_previous_apply:
  "load_previous s =
     (Inr (if read_denied s then []
           else case state_file s of Records es \<Rightarrow> es | _ \<Rightarrow> []), s)"
  by (simp add: load_previous_def)

lemma writeFile_cases:
  assumes "writeFile w es s = (r, s')"
  shows "(r = Inl (Rejected WriteFile) \<and> s' = s\<lparr>state_file := file_after_failed_write w\<rparr>
            \<and> WriteFile \<in> set (failing w))
       \<or> (r = Inr () \<and> s' = s\<lparr>state_file := Records es\<rparr>)"
  using assms by (auto simp: writeFile_def split: if_splits)

lemma notify_file_cases:
  assumes "(if length new > 0 then sendEmail_file w new else ret ()) s = (r, s')"
  shows "((\<exists>e. r = Inl e) \<and> s' = s \<and> new \<noteq> [])
       \<or> (r = Inr () \<and> s' = s \<and> new = [])
       \<or> (r = Inr () \<and> s' = s\<lparr>outbox := outbox s @ [new]\<rparr> \<and> new \<noteq> []
            \<and> ''createTransporter'' \<in> set (nodemailer w))"
proof (cases "new = []")
  case True
  with assms show ?thesis by (simp add: ret_def)
next
  case False
  with assms have "sendEmail_file w new s = (r, s')" by simp
  from sendEmail_file_cases [OF this] False show ?thesis by auto
qed

lemma checkInventory_file_outcome:
  assumes "checkInventory_file w s = (r, s')"
  shows "\<exists>sent. outbox s' = (if sent then outbox s @ [new_of_file w s] else outbox s)
     \<and> (sent \<longrightarrow> new_of_file w s \<noteq> [] \<and> ''createTransporter'' \<in> set (nodemailer w))
     \<and> (state_file s' = state_file s
          \<or> ((new_of_file w s = [] \<or> sent)
              \<and> (state_file s' = Records (take 20 (latestEntries_file (rows w)))
                  \<or> (WriteFile \<in> set (failing w)
                       \<and> state_file s' = file_after_failed_write w))))
     \<and> (r = Inr () \<longrightarrow> state_file s' = Records (take 20 (latestEntries_file (rows w)))
            \<and> \<not> browser_open s' \<and> (new_of_file w s \<noteq> [] \<longrightarrow> sent))
     \<and> table s' = table s \<and> read_denied s' = read_denied s"
proof -
  have quiet: ?thesis
    if "r = Inl e" "outbox s' = outbox s" "state_file s' = state_file s" "table s' = table s"
       "read_denied s' = read_denied s"
    for e
    using that by (intro exI [of _ False]) simp
  from assms show ?thesis
    unfolding checkInventory_file_def
  proof (cases rule: then_ioE)
    case (failed e)
    from launch_cases [OF failed(1)] failed(2) show ?thesis
      by (intro quiet) auto
  next
    case (passed s1)
    from launch_cases [OF passed(1)] have s1: "s1 = s\<lparr>browser_open := True\<rparr>"
      by auto
    from passed(2) show ?thesis
    proof (cases rule: then_ioE)
      case (failed e)
      from awaits_cases [OF failed(1)] failed(2) s1 show ?thesis
        by (intro quiet) simp_all
    next
      case (passed s2)
      from awaits_cases [OF passed(1)] s1 have s2: "s2 = s\<lparr>browser_open := True\<rparr>"
        by simp
      from passed(2) show ?thesis
      proof (cases rule: bind_ioE)
        case (failed e)
        then show ?thesis by (simp add: load_previous_apply)
      next
        case (passed previous s3)
        with s2 have s3: "s3 = s\<lparr>browser_open := True\<rparr>"
          and "previous = (if read_denied s then []
                           else case state_file s of Records es \<Rightarrow> es | _ \<Rightarrow> [])"
          by (auto simp: load_previous_apply)
        then have nw: "newEntries (latestEntries_file (rows w)) previous = new_of_file w s"
          by (simp add: new_of_file_def)
        from passed(2) [unfolded nw] show ?thesis
        proof (cases rule: then_ioE)
          case (failed e)
          from notify_file_cases [OF failed(1)] failed(2) s3 show ?thesis
            by (intro quiet) auto
        next
          case (passed s4)
          define sent where "sent = (new_of_file w s \<noteq> [])"
          from notify_file_cases [OF passed(1)] s3
          have s4: "s4 = s\<lparr>browser_open := True,
                outbox := (if sent then outbox s @ [new_of_file w s] else outbox s)\<rparr>"
            and sent: "sent \<longrightarrow> new_of_file w s \<noteq> [] \<and> ''createTransporter'' \<in> set (nodemailer w)"
               "new_of_file w s = [] \<or> sent"
            by (auto simp: sent_def)
          from passed(2) show ?thesis
          proof (cases rule: then_ioE)
            case (failed e)
            from writeFile_cases [OF failed(1)] failed(2) s4 sent show ?thesis
              by (intro exI [of _ sent]) auto
          next
            case (passed s5)
            from writeFile_cases [OF passed(1)] s4
            have s5: "s5 = s\<lparr>browser_open := True,
                outbox := (if sent then outbox s @ [new_of_file w s] else outbox s),
                state_file := Records (take 20 (latestEntries_file (rows w)))\<rparr>"
              by auto
            from browser_close_cases [OF passed(2)] s5 sent show ?thesis
              by (intro exI [of _ sent]) auto
          qed
        qed
      qed
    qed
  qed
qed

subsection \<open>Evaluating a run on a concrete world\<close>

lemmas io_defs = then_io_def bind_io_def finally_io_def await_def modify_def ret_def throw_def
  launch_def browser_close_def pool_end_def dispatch_def sendMail_def

lemmas table_run_defs = main_def checkInventory_def initDatabase_def monitor_def
  notify_and_save_def sendEmail_def saveState_def insert_row_def getPreviousEntries_def
  contents_def new_of_def

lemmas file_run_defs = checkInventory_file_def load_previous_def writeFile_def
  sendEmail_file_def new_of_file_def

lemmas detector_defs = newEntries_def is_new_def same_identity_def latestEntries_def
  latestEntries_file_def map_row_def keep_entry_def mk_entry_def cell_def trim_def
  is_space_def truthy_def

lemmas example_defs = calm_def patched_def fresh_def widget_row_def widget_sale_def
  widget_refund_def gadget_row_def gadget_receipt_def short_row_def untimed_row_def
  write_only_def write_only_after_def

text \<open>
  A failure inside the \<^verbatim>\<open>try\<close> block of \<^verbatim>\<open>src/index.js\<close>: the
  \<^verbatim>\<open>finally\<close> block ends the pool, the \<^verbatim>\<open>pool.end()\<close> of \<^verbatim>\<open>main\<close>
  is the second one and rejects, and \<^verbatim>\<open>process.exit(1)\<close> is not reached.
\<close>

lemma main_second_end_rejects:
  "main (calm [widget_row]) fresh
     = (Unhandled (Rejected PoolEnd), fresh\<lparr>table := Some [], pool_open := False\<rparr>)"
  by (simp add: table_run_defs io_defs detector_defs example_defs)

subsection \<open>A run that returns\<close>

lemma monitor_success:
  assumes "monitor w s = (Inr (), s')"
  shows "SelectRecent \<notin> set (failing w)"
  using assms unfolding monitor_def
proof (cases rule: then_ioE)
  case (passed s1)
  from passed(2) show ?thesis
  proof (cases rule: then_ioE)
    case (passed s2)
    from passed(2) show ?thesis
    proof (cases rule: then_ioE)
      case (passed s3)
      from passed(2) show ?thesis
      proof (cases rule: bind_ioE)
        case (passed previous s4)
        from getPreviousEntries_cases [OF passed(1)] show ?thesis
          by (auto split: if_splits)
      qed simp
    qed simp
  qed simp
qed simp

lemma checkInventory_success:
  assumes "checkInventory w s = (Inr (), s')"
  shows "SelectRecent \<notin> set (failing w)"
  using assms unfolding checkInventory_def
proof (cases rule: then_ioE)
  case (passed s1)
  from passed(2) show ?thesis
  proof (cases rule: then_ioE)
    case (passed s2)
    from passed(2) show ?thesis
    proof (cases rule: then_ioE)
      case (passed s3)
      from passed(2) show ?thesis
      proof (cases rule: then_ioE)
        case (passed s4)
        from passed(2) show ?thesis
        proof (cases rule: finally_ioE)
          case (1 rb sb rc)
          from 1(3) have "rb = Inr ()" by (cases rc) simp_all
          with 1(1) show ?thesis by (auto dest: monitor_success)
        qed
      qed simp
    qed simp
  qed simp
qed simp

subsection \<open>Repeated identities\<close>

lemma newEntries_filter_key:
  "newEntries latest previous
     = filter (\<lambda>e. identity_key e \<notin> set (map identity_key previous)) latest"
  unfolding newEntries_def
  by (rule filter_cong) (simp_all add: is_new_key identity_key_def)

lemma newEntries_empty_iff:
  "newEntries latest previous = []
     \<longleftrightarrow> (\<forall>e \<in> set latest. identity_key e \<in> set (map identity_key previous))"
  unfolding newEntries_filter_key by (simp add: filter_empty_conv)

lemma newEntries_count:
  "count_list (map identity_key (newEntries latest previous)) k
     = (if k \<in> set (map identity_key previous) then 0
        else count_list (map identity_key latest) k)"
  unfolding newEntries_filter_key
  by (induction latest) auto

lemma newEntries_distinct:
  "distinct (map identity_key latest) \<Longrightarrow> distinct (map identity_key (newEntries latest previous))"
  unfolding newEntries_filter_key by (rule distinct_map_filter)

lemma newEntries_disjoint:
  "set (map identity_key (newEntries latest previous)) \<inter> set (map identity_key previous) = {}"
proof -
  have "k \<notin> set (map identity_key previous)"
    if "k \<in> set (map identity_key (newEntries latest previous))" for k
    using that unfolding newEntries_filter_key by auto
  then show ?thesis by blast
qed


subsection \<open>The guarded part of \<^verbatim>\<open>checkInventory\<close>\<close>

text \<open>
  Once the \<^verbatim>\<open>try\<close> block of \<^verbatim>\<open>src/index.js\<close> is entered, browser and pool are
  released however the block ends, provided the two release calls themselves succeed.
\<close>

lemma try_block_releases:
  assumes "finally_io (monitor w) (then_io (browser_close w) (pool_end w)) s = (r, s')"
    and "BrowserClose \<notin> set (failing w)" "PoolEnd \<notin> set (failing w)"
  shows "\<not> browser_open s' \<and> \<not> pool_open s'"
  using assms(1)
proof (cases rule: finally_ioE)
  case (1 rb sb rc)
  from cleanup_cases [OF 1(2)] assms(2,3) show ?thesis by simp
qed

section \<open>The claims\<close>

subsection \<open>C1: identity of a record\<close>

text \<open>
  C1. Whatever the extracted sequence and the stored records handed to the detector as
  previous state, the detector keeps a record exactly when no stored record has the same
  timestamp and the same item. The fields
  \<open>reason\<close>, \<open>quantity\<close> and \<open>location\<close> play no part: a record with the same
  timestamp and item is classified the same way, and stored records with the same
  sequence of (timestamp, item) pairs give the same new set.
\<close>

theorem newEntries_identity_key:
  "(e \<in> set (newEntries latest previous) \<longleftrightarrow>
      e \<in> set latest \<and> \<not> (\<exists>p \<in> set previous. timestamp p = timestamp e \<and> item p = item e))
   \<and> (timestamp e' = timestamp e \<and> item e' = item e \<longrightarrow> is_new previous e' = is_new previous e)
   \<and> (map (\<lambda>p. (timestamp p, item p)) previous' = map (\<lambda>p. (timestamp p, item p)) previous
        \<longrightarrow> newEntries latest previous' = newEntries latest previous)"
proof (intro conjI impI)
  show "e \<in> set (newEntries latest previous) \<longleftrightarrow>
      e \<in> set latest \<and> \<not> (\<exists>p \<in> set previous. timestamp p = timestamp e \<and> item p = item e)"
    by (auto simp: newEntries_def is_new_iff)
next
  assume "timestamp e' = timestamp e \<and> item e' = item e"
  then show "is_new previous e' = is_new previous e"
    by (simp add: is_new_iff)
next
  assume "map (\<lambda>p. (timestamp p, item p)) previous' = map (\<lambda>p. (timestamp p, item p)) previous"
  then have "is_new previous' = is_new previous"
    by (simp add: fun_eq_iff is_new_key)
  then show "newEntries latest previous' = newEntries latest previous"
    by (simp add: newEntries_def)
qed

theorem newEntries_identity_key_witness:
  "gadget_receipt \<in> set (newEntries [widget_sale, gadget_receipt] [widget_refund])
   \<and> widget_sale \<notin> set (newEntries [widget_sale, gadget_receipt] [widget_refund])
   \<and> is_new [widget_refund] widget_refund = is_new [widget_refund] widget_sale
   \<and> newEntries [widget_sale, gadget_receipt] [widget_sale]
        = newEntries [widget_sale, gadget_receipt] [widget_refund]"
  using newEntries_identity_key [of gadget_receipt "[widget_sale, gadget_receipt]"
          "[widget_refund]" widget_refund "[widget_sale]"]
        newEntries_identity_key [of widget_sale "[widget_sale, gadget_receipt]"
          "[widget_refund]" widget_refund "[widget_sale]"]
  by (simp add: widget_sale_def gadget_receipt_def widget_refund_def)

subsection \<open>C2: the store is written only after a dispatch\<close>

text \<open>
  C2, as stated, fails on the file-backed variant: line 56 of \<^verbatim>\<open>src/unnamed/part_000\<close>
  rewrites the state file on every run that gets that far. With the two records stored
  and a page that shows only the first, nothing is new, no message is sent, and the run
  still replaces the stored records by the page. On a first run over an empty page
  nothing is new either, and the run creates the state file.
\<close>

theorem quiet_run_rewrites_state_file:
  "new_of_file (calm [widget_row]) (fresh\<lparr>state_file := Records [widget_sale, gadget_receipt]\<rparr>) = []
   \<and> checkInventory_file (calm [widget_row])
        (fresh\<lparr>state_file := Records [widget_sale, gadget_receipt]\<rparr>)
      = (Inr (), fresh\<lparr>state_file := Records [widget_sale]\<rparr>)
   \<and> new_of_file (calm []) fresh = []
   \<and> checkInventory_file (calm []) fresh = (Inr (), fresh\<lparr>state_file := Records []\<rparr>)"
  by (simp add: file_run_defs io_defs detector_defs example_defs)

text \<open>
  C2, amended. In \<^verbatim>\<open>src/index.js\<close> a run appends to the table a prefix of the new
  set, and a non-empty one only after the message for the new set was handed to the
  transport; when nothing is new, or when no message went out, the table holds after the
  run what it held before. In \<^verbatim>\<open>src/unnamed/part_000\<close> a run whose send fails leaves
  the state file as it was, and a run that returns has replaced the state file by the
  first twenty extracted records, whether or not anything was new.
\<close>

theorem store_written_only_after_dispatch:
  "(checkInventory w s = (r, s') \<longrightarrow>
      (\<exists>n \<le> length (new_of w s). contents s' = contents s @ take n (new_of w s)
          \<and> (0 < n \<longrightarrow> outbox s' = outbox s @ [new_of w s]))
      \<and> (new_of w s = [] \<or> outbox s' = outbox s \<longrightarrow> contents s' = contents s))
   \<and> (checkInventory_file w s = (r, s') \<longrightarrow>
      (new_of_file w s \<noteq> [] \<and> outbox s' = outbox s \<longrightarrow> state_file s' = state_file s)
      \<and> (r = Inr () \<longrightarrow> state_file s' = Records (take 20 (latestEntries_file (rows w)))))"
proof (intro conjI impI)
  assume "checkInventory w s = (r, s')"
  from checkInventory_outcome [OF this]
  obtain n sent where o: "store_outcome w (new_of w s) s r s' n sent"
    by blast
  then show "\<exists>n \<le> length (new_of w s). contents s' = contents s @ take n (new_of w s)
          \<and> (0 < n \<longrightarrow> outbox s' = outbox s @ [new_of w s])"
    by (intro exI [of _ n]) (simp add: store_outcome_def)
  assume "new_of w s = [] \<or> outbox s' = outbox s"
  with o show "contents s' = contents s"
    by (auto simp: store_outcome_def split: if_splits)
next
  assume run: "checkInventory_file w s = (r, s')"
  from checkInventory_file_outcome [OF run]
  obtain sent where o: "outbox s' = (if sent then outbox s @ [new_of_file w s] else outbox s)"
    "state_file s' = state_file s \<or> new_of_file w s = [] \<or> sent"
    "r = Inr () \<longrightarrow> state_file s' = Records (take 20 (latestEntries_file (rows w)))"
    by blast
  from o(3) show "r = Inr () \<Longrightarrow> state_file s' = Records (take 20 (latestEntries_file (rows w)))"
    by simp
  assume "new_of_file w s \<noteq> [] \<and> outbox s' = outbox s"
  with o(1,2) show "state_file s' = state_file s"
    by (auto split: if_splits)
qed

theorem store_written_only_after_dispatch_witness:
  "checkInventory (patched (calm [widget_row])) fresh
     = (Inr (), fresh\<lparr>table := Some [widget_sale], pool_open := False, outbox := [[widget_sale]]\<rparr>)
   \<and> new_of (patched (calm [widget_row])) fresh = [widget_sale]
   \<and> checkInventory_file (calm [widget_row]) fresh
     = (Inl (NotAFunction ''nodemailer.createTransporter''), fresh\<lparr>browser_open := True\<rparr>)
   \<and> new_of_file (calm [widget_row]) fresh \<noteq> []
   \<and> state_file (fresh\<lparr>browser_open := True\<rparr>) = state_file fresh"
  using store_written_only_after_dispatch [of "patched (calm [widget_row])" fresh "Inr ()"
          "fresh\<lparr>table := Some [widget_sale], pool_open := False, outbox := [[widget_sale]]\<rparr>"]
        store_written_only_after_dispatch [of "calm [widget_row]" fresh
          "Inl (NotAFunction ''nodemailer.createTransporter'')" "fresh\<lparr>browser_open := True\<rparr>"]
  by (simp add: table_run_defs file_run_defs io_defs detector_defs example_defs)

subsection \<open>C3: the call of a function the mail module does not export\<close>

text \<open>
  C3. Both variants call \<^verbatim>\<open>nodemailer.createTransporter\<close>. When the module exports
  no function of that name, \<^verbatim>\<open>sendEmail\<close> throws at its first statement, before
  anything is verified or dispatched. So no run hands a message to the transport and no
  run of \<^verbatim>\<open>src/index.js\<close> changes the table; a run that finds new records fails, and
  fails with that error when no other call throws and the login succeeds; the file-backed
  run that finds new records fails and leaves the state file as it was.
\<close>

theorem createTransporter_missing:
  assumes "''createTransporter'' \<notin> set (nodemailer w)"
  shows "sendEmail w entries s = (Inl (NotAFunction ''nodemailer.createTransporter''), s)
     \<and> sendEmail_file w entries s = (Inl (NotAFunction ''nodemailer.createTransporter''), s)
     \<and> (checkInventory w s = (r, s') \<longrightarrow>
           outbox s' = outbox s \<and> contents s' = contents s
           \<and> (new_of w s \<noteq> [] \<longrightarrow> r \<noteq> Inr ()))
     \<and> (checkInventory_file w s = (r, s') \<longrightarrow>
           outbox s' = outbox s
           \<and> (new_of_file w s \<noteq> [] \<longrightarrow> r \<noteq> Inr () \<and> state_file s' = state_file s))
     \<and> (failing w = [] \<and> \<not> str_includes (url_after_login w) ''/login'' \<and> new_of w s \<noteq> [] \<longrightarrow>
           fst (checkInventory w s) = Inl (NotAFunction ''nodemailer.createTransporter''))
     \<and> (failing w = [] \<and> new_of_file w s \<noteq> [] \<longrightarrow>
           fst (checkInventory_file w s) = Inl (NotAFunction ''nodemailer.createTransporter''))"
proof (intro conjI impI)
  from assms show "sendEmail w entries s = (Inl (NotAFunction ''nodemailer.createTransporter''), s)"
    by (simp add: sendEmail_def throw_def)
  from assms
  show "sendEmail_file w entries s = (Inl (NotAFunction ''nodemailer.createTransporter''), s)"
    by (simp add: sendEmail_file_def throw_def)
next
  assume "checkInventory w s = (r, s')"
  from checkInventory_outcome [OF this]
  obtain n sent where o: "store_outcome w (new_of w s) s r s' n sent"
    by blast
  with assms have "\<not> sent" "n = 0"
    by (auto simp: store_outcome_def)
  with o show "outbox s' = outbox s" "contents s' = contents s"
    "new_of w s \<noteq> [] \<Longrightarrow> r \<noteq> Inr ()"
    by (auto simp: store_outcome_def)
next
  assume run: "checkInventory_file w s = (r, s')"
  from checkInventory_file_outcome [OF run] assms
  have o: "outbox s' = outbox s"
    "state_file s' = state_file s \<or> new_of_file w s = []"
    "r = Inr () \<longrightarrow> new_of_file w s = []"
    by auto
  from o(1) show "outbox s' = outbox s" .
  assume "new_of_file w s \<noteq> []"
  with o(2,3) show "r \<noteq> Inr ()" "state_file s' = state_file s"
    by auto
next
  assume "failing w = [] \<and> \<not> str_includes (url_after_login w) ''/login'' \<and> new_of w s \<noteq> []"
  with assms show "fst (checkInventory w s) = Inl (NotAFunction ''nodemailer.createTransporter'')"
    by (simp add: table_run_defs io_defs)
next
  assume "failing w = [] \<and> new_of_file w s \<noteq> []"
  with assms
  show "fst (checkInventory_file w s) = Inl (NotAFunction ''nodemailer.createTransporter'')"
    by (cases "read_denied s") (simp_all add: file_run_defs io_defs)
qed

theorem createTransporter_missing_witness:
  "''createTransporter'' \<notin> set (nodemailer (calm [widget_row]))
   \<and> sendEmail (calm [widget_row]) [widget_sale] fresh
       = (Inl (NotAFunction ''nodemailer.createTransporter''), fresh)
   \<and> fst (checkInventory (calm [widget_row]) fresh)
       = Inl (NotAFunction ''nodemailer.createTransporter'')
   \<and> fst (checkInventory_file (calm [widget_row]) fresh)
       = Inl (NotAFunction ''nodemailer.createTransporter'')"
  using createTransporter_missing [of "calm [widget_row]" "[widget_sale]" fresh
          "Inl (NotAFunction ''nodemailer.createTransporter'')"
          "fresh\<lparr>table := Some [], pool_open := False\<rparr>"]
  by (simp add: table_run_defs file_run_defs io_defs detector_defs example_defs)

subsection \<open>C4: rows the extractor drops\<close>

text \<open>
  C4 holds for \<^verbatim>\<open>src/index.js\<close> (lemma \<open>latestEntries_wellformed\<close>) and fails for
  \<^verbatim>\<open>src/unnamed/part_000\<close>, whose filter tests \<^verbatim>\<open>entry.item\<close> alone: a row of two
  cells comes out as a record with three undefined fields, and a row whose timestamp cell
  is blank comes out with an empty timestamp. The same page through the extractor of
  \<^verbatim>\<open>src/index.js\<close> gives no record.
\<close>

theorem latestEntries_file_surfaces_malformed_rows:
  "latestEntries_file [short_row, untimed_row]
     = [\<lparr>timestamp = Some ''2024-05-01 11:00'', item = Some ''Sprocket'', reason = None,
          quantity = None, location = None\<rparr>,
        \<lparr>timestamp = Some [], item = Some ''Sprocket'', reason = Some ''Damage'',
          quantity = Some ''-3'', location = Some ''Main store''\<rparr>]
   \<and> latestEntries [short_row, untimed_row] = []"
  by (simp add: detector_defs example_defs)

subsection \<open>C5: the retention window\<close>

text \<open>
  C5, as stated, fails: \<^verbatim>\<open>saveState\<close> only inserts. On a table of a hundred records
  the append of one more returns and leaves a hundred and one.
\<close>

theorem append_beyond_window_keeps_everything:
  "saveState next_page [nth_entry 100] hundred = (Inr (), hundred_and_one)
   \<and> length (contents hundred) = 100 \<and> length (contents hundred_and_one) = 101"
  by (simp add: hundred_def hundred_and_one_def next_page_def saveState_def insert_row_def
        contents_def io_defs example_defs)

text \<open>
  C5, amended. No append prunes: a \<^verbatim>\<open>saveState\<close> that returns has put every given
  record after the rows the table held, and removed none. The window of a hundred applies
  where the previous state is read: \<^verbatim>\<open>getPreviousEntries\<close> returns the hundred rows
  inserted last (all of them when there are fewer), the latest first. The file-backed
  variant keeps no history: a run that returns has replaced the state file by the first
  twenty records of the page.
\<close>

theorem window_applied_on_read:
  "(table s = Some t \<and> saveState w es s = (Inr (), s') \<longrightarrow> table s' = Some (t @ es))
   \<and> (table s = Some t \<and> SelectRecent \<notin> set (failing w) \<longrightarrow>
        getPreviousEntries w s = (Inr (take 100 (rev t)), s)
        \<and> length (take 100 (rev t)) = min 100 (length t))
   \<and> (checkInventory_file w s = (Inr (), s') \<longrightarrow>
        state_file s' = Records (take 20 (latestEntries_file (rows w))))"
proof (intro conjI impI)
  assume a: "table s = Some t \<and> saveState w es s = (Inr (), s')"
  then have "saveState w es s = (Inr (), s')" "table s = Some t" by simp_all
  from saveState_cases [OF this] show "table s' = Some (t @ es)" by auto
next
  assume "table s = Some t \<and> SelectRecent \<notin> set (failing w)"
  then show "getPreviousEntries w s = (Inr (take 100 (rev t)), s)"
    by (simp add: getPreviousEntries_def io_defs)
  show "length (take 100 (rev t)) = min 100 (length t)" by simp
next
  assume "checkInventory_file w s = (Inr (), s')"
  from checkInventory_file_outcome [OF this]
  show "state_file s' = Records (take 20 (latestEntries_file (rows w)))" by auto
qed

theorem window_applied_on_read_witness:
  "table (fresh\<lparr>table := Some [widget_sale]\<rparr>) = Some [widget_sale]
   \<and> saveState (calm []) [gadget_receipt] (fresh\<lparr>table := Some [widget_sale]\<rparr>)
        = (Inr (), fresh\<lparr>table := Some [widget_sale, gadget_receipt]\<rparr>)
   \<and> getPreviousEntries (calm []) (fresh\<lparr>table := Some [widget_sale, gadget_receipt]\<rparr>)
        = (Inr [gadget_receipt, widget_sale], fresh\<lparr>table := Some [widget_sale, gadget_receipt]\<rparr>)
   \<and> checkInventory_file (calm []) fresh = (Inr (), fresh\<lparr>state_file := Records []\<rparr>)"
  using window_applied_on_read [of "fresh\<lparr>table := Some [widget_sale]\<rparr>" "[widget_sale]"
          "calm []" "[gadget_receipt]" "fresh\<lparr>table := Some [widget_sale, gadget_receipt]\<rparr>"]
        window_applied_on_read [of "fresh\<lparr>table := Some [widget_sale, gadget_receipt]\<rparr>"
          "[widget_sale, gadget_receipt]" "calm []" "[]"
          "fresh\<lparr>table := Some [widget_sale, gadget_receipt]\<rparr>"]
        window_applied_on_read [of fresh "[]" "calm []" "[]" "fresh\<lparr>state_file := Records []\<rparr>"]
  by (simp add: saveState_def insert_row_def file_run_defs io_defs detector_defs example_defs)

subsection \<open>C6: atomicity of the append\<close>

text \<open>
  C6, as stated, fails: \<^verbatim>\<open>saveState\<close> awaits one \<^verbatim>\<open>INSERT\<close> after the other, with
  no transaction around them. When the second insert of a batch of two throws, the first
  record is in the table and the second is not.
\<close>

theorem second_insert_fails_first_stays:
  "saveState ((calm [])\<lparr>failing := [Insert 1]\<rparr>) [widget_sale, gadget_receipt]
       (fresh\<lparr>table := Some []\<rparr>)
     = (Inl (Rejected (Insert 1)), fresh\<lparr>table := Some [widget_sale]\<rparr>)"
  by (simp add: saveState_def insert_row_def io_defs example_defs)

text \<open>
  C6, amended. A \<^verbatim>\<open>saveState\<close> that returns has inserted every record of the batch,
  in order, after the rows the table held. A \<^verbatim>\<open>saveState\<close> that throws did so at the
  insert of some record of the batch, and leaves the former rows intact, followed by the
  records of the batch before that one: the earlier inserts of the batch stay. A
  \<^verbatim>\<open>writeFile\<close> that returns has replaced the state file by the records given.
\<close>

theorem saveState_keeps_prefix:
  "(table s = Some t \<and> saveState w es s = (r, s') \<longrightarrow>
      (\<exists>n \<le> length es. s' = s\<lparr>table := Some (t @ take n es)\<rparr>
          \<and> ((r = Inr () \<and> n = length es)
             \<or> (n < length es \<and> r = Inl (Rejected (Insert n)) \<and> Insert n \<in> set (failing w)))))
   \<and> (writeFile w es s = (Inr (), s') \<longrightarrow> s' = s\<lparr>state_file := Records es\<rparr>)"
proof (intro conjI impI)
  assume "table s = Some t \<and> saveState w es s = (r, s')"
  then have "saveState w es s = (r, s')" "table s = Some t" by simp_all
  from saveState_cases [OF this]
  show "\<exists>n \<le> length es. s' = s\<lparr>table := Some (t @ take n es)\<rparr>
          \<and> ((r = Inr () \<and> n = length es)
             \<or> (n < length es \<and> r = Inl (Rejected (Insert n)) \<and> Insert n \<in> set (failing w)))" .
next
  assume "writeFile w es s = (Inr (), s')"
  from writeFile_cases [OF this] show "s' = s\<lparr>state_file := Records es\<rparr>" by simp
qed

theorem saveState_keeps_prefix_witness:
  "table (fresh\<lparr>table := Some []\<rparr>) = Some []
   \<and> saveState ((calm [])\<lparr>failing := [Insert 1]\<rparr>) [widget_sale, gadget_receipt]
        (fresh\<lparr>table := Some []\<rparr>)
      = (Inl (Rejected (Insert 1)), fresh\<lparr>table := Some [widget_sale]\<rparr>)
   \<and> writeFile (calm []) [widget_sale] fresh = (Inr (), fresh\<lparr>state_file := Records [widget_sale]\<rparr>)"
  using saveState_keeps_prefix [of "fresh\<lparr>table := Some []\<rparr>" "[]"
          "(calm [])\<lparr>failing := [Insert 1]\<rparr>" "[widget_sale, gadget_receipt]"
          "Inl (Rejected (Insert 1))" "fresh\<lparr>table := Some [widget_sale]\<rparr>"]
        saveState_keeps_prefix [of fresh "[]" "calm []" "[widget_sale]" "Inr ()"
          "fresh\<lparr>state_file := Records [widget_sale]\<rparr>"]
  by (simp add: saveState_def insert_row_def writeFile_def io_defs example_defs)

subsection \<open>C7: one identity appended twice in a run\<close>

text \<open>
  C7, as stated, fails: neither the detector nor \<^verbatim>\<open>saveState\<close> looks for a repeated
  identity inside the extracted sequence. A page that shows the same row twice gives a new
  set with the record twice, and \<^verbatim>\<open>saveState\<close> inserts both. In the file-backed
  variant a run over that page, with the record already stored and nothing new, writes
  the record twice.
\<close>

theorem one_run_stores_an_identity_twice:
  "newEntries (latestEntries [widget_row, widget_row]) [] = [widget_sale, widget_sale]
   \<and> saveState (calm [widget_row, widget_row]) [widget_sale, widget_sale]
        (fresh\<lparr>table := Some []\<rparr>)
      = (Inr (), fresh\<lparr>table := Some [widget_sale, widget_sale]\<rparr>)
   \<and> checkInventory_file (calm [widget_row, widget_row])
        (fresh\<lparr>state_file := Records [widget_sale]\<rparr>)
      = (Inr (), fresh\<lparr>state_file := Records [widget_sale, widget_sale]\<rparr>)"
  by (simp add: saveState_def insert_row_def file_run_defs io_defs detector_defs example_defs)

text \<open>
  C7, amended. The new set holds an identity as often as the extracted sequence does,
  unless a loaded record has it, and a run of \<^verbatim>\<open>src/index.js\<close> appends a prefix of
  the new set as it is. When no two extracted records share an identity key, no two
  appended records do, and none of them has the key of a record of the loaded window;
  likewise the records a returning run of the file-backed variant writes then have
  pairwise different keys.
\<close>

theorem appended_identities:
  "count_list (map identity_key (newEntries latest previous)) k
     = (if k \<in> set (map identity_key previous) then 0
        else count_list (map identity_key latest) k)
   \<and> (checkInventory w s = (r, s') \<longrightarrow>
        (\<exists>n \<le> length (new_of w s). contents s' = contents s @ take n (new_of w s))
        \<and> (distinct (map identity_key (latestEntries (rows w))) \<longrightarrow>
             (\<exists>added. contents s' = contents s @ added \<and> distinct (map identity_key added)
                \<and> set (map identity_key added)
                    \<inter> set (map identity_key (take 100 (rev (contents s)))) = {})))
   \<and> (checkInventory_file w s = (Inr (), s')
        \<and> distinct (map identity_key (latestEntries_file (rows w))) \<longrightarrow>
        (\<exists>es. state_file s' = Records es \<and> distinct (map identity_key es)))"
proof (intro conjI impI)
  show "count_list (map identity_key (newEntries latest previous)) k
     = (if k \<in> set (map identity_key previous) then 0
        else count_list (map identity_key latest) k)"
    by (rule newEntries_count)
next
  assume "checkInventory w s = (r, s')"
  from checkInventory_outcome [OF this]
  obtain n sent where "store_outcome w (new_of w s) s r s' n sent"
    by blast
  then have n: "n \<le> length (new_of w s)" "contents s' = contents s @ take n (new_of w s)"
    by (simp_all add: store_outcome_def)
  then show "\<exists>n \<le> length (new_of w s). contents s' = contents s @ take n (new_of w s)"
    by blast
  assume d: "distinct (map identity_key (latestEntries (rows w)))"
  have "distinct (map identity_key (new_of w s))"
    unfolding new_of_def by (rule newEntries_distinct [OF d])
  then have "distinct (take n (map identity_key (new_of w s)))"
    by (rule distinct_take)
  then have 1: "distinct (map identity_key (take n (new_of w s)))"
    by (simp add: take_map)
  have "set (map identity_key (take n (new_of w s))) \<subseteq> set (map identity_key (new_of w s))"
    by (auto dest: in_set_takeD)
  with newEntries_disjoint [of "latestEntries (rows w)" "take 100 (rev (contents s))"]
  have 2: "set (map identity_key (take n (new_of w s)))
             \<inter> set (map identity_key (take 100 (rev (contents s)))) = {}"
    unfolding new_of_def by blast
  from n(2) 1 2
  show "\<exists>added. contents s' = contents s @ added \<and> distinct (map identity_key added)
          \<and> set (map identity_key added)
              \<inter> set (map identity_key (take 100 (rev (contents s)))) = {}"
    by blast
next
  assume a: "checkInventory_file w s = (Inr (), s')
        \<and> distinct (map identity_key (latestEntries_file (rows w)))"
  then have "checkInventory_file w s = (Inr (), s')" by simp
  from checkInventory_file_outcome [OF this]
  have "state_file s' = Records (take 20 (latestEntries_file (rows w)))" by auto
  moreover from a have "distinct (take 20 (map identity_key (latestEntries_file (rows w))))"
    by (intro distinct_take) simp
  then have "distinct (map identity_key (take 20 (latestEntries_file (rows w))))"
    by (simp add: take_map)
  ultimately show "\<exists>es. state_file s' = Records es \<and> distinct (map identity_key es)"
    by blast
qed

theorem appended_identities_witness:
  "checkInventory (patched (calm [widget_row, gadget_row])) fresh
     = (Inr (), fresh\<lparr>table := Some [widget_sale, gadget_receipt], pool_open := False,
                     outbox := [[widget_sale, gadget_receipt]]\<rparr>)
   \<and> distinct (map identity_key (latestEntries (rows (patched (calm [widget_row, gadget_row])))))
   \<and> checkInventory_file (calm [widget_row, gadget_row])
        (fresh\<lparr>state_file := Records [gadget_receipt, widget_sale]\<rparr>)
      = (Inr (), fresh\<lparr>state_file := Records [widget_sale, gadget_receipt]\<rparr>)
   \<and> distinct (map identity_key (latestEntries_file (rows (calm [widget_row, gadget_row]))))
   \<and> count_list (map identity_key (newEntries [widget_sale, widget_sale] [gadget_receipt]))
        (identity_key widget_sale) = 2"
  using appended_identities [of "[widget_sale, widget_sale]" "[gadget_receipt]"
          "identity_key widget_sale" "patched (calm [widget_row, gadget_row])" fresh "Inr ()"
          "fresh\<lparr>table := Some [widget_sale, gadget_receipt], pool_open := False,
                  outbox := [[widget_sale, gadget_receipt]]\<rparr>"]
        appended_identities [of "[widget_sale, widget_sale]" "[gadget_receipt]"
          "identity_key widget_sale" "calm [widget_row, gadget_row]"
          "fresh\<lparr>state_file := Records [gadget_receipt, widget_sale]\<rparr>" "Inr ()"
          "fresh\<lparr>state_file := Records [widget_sale, gadget_receipt]\<rparr>"]
  by (simp add: table_run_defs file_run_defs io_defs detector_defs example_defs identity_key_def)

subsection \<open>C8: running the detector again\<close>

text \<open>
  C8, as stated, fails in three ways. In \<^verbatim>\<open>src/index.js\<close>, once the window is full:
  the table holds a hundred records, the page shows a new record and the record inserted
  first; the detector reports the new record, \<^verbatim>\<open>saveState\<close> appends it, and the
  hundred rows read back no longer include the record inserted first, so the same page
  against the store the run left reports that record as new. In
  \<^verbatim>\<open>src/unnamed/part_000\<close>, when the page gives more than twenty records: a first
  run over twenty-one rows returns and keeps the first twenty, and the same page then
  reports the twenty-first. And in \<^verbatim>\<open>src/unnamed/part_000\<close>, when the state file may
  be written and not read: the run returns, the file takes the record, and the same page
  reports the record again because the file still cannot be read.
\<close>

theorem rerun_after_window_overflow:
  "new_of next_page hundred = [nth_entry 100]
   \<and> saveState next_page (new_of next_page hundred) hundred = (Inr (), hundred_and_one)
   \<and> new_of next_page hundred_and_one = [nth_entry 0]
   \<and> checkInventory_file (patched long_page) fresh = (Inr (), first_twenty)
   \<and> new_of_file (patched long_page) first_twenty = [nth_entry 20]
   \<and> checkInventory_file (patched (calm [widget_row])) write_only = (Inr (), write_only_after)
   \<and> new_of_file (patched (calm [widget_row])) write_only_after = [widget_sale]"
proof -
  have a: "new_of next_page hundred = [nth_entry 100]"
    by code_simp
  have b: "new_of next_page hundred_and_one = [nth_entry 0]"
    by code_simp
  have c: "saveState next_page [nth_entry 100] hundred = (Inr (), hundred_and_one)"
    by (simp add: hundred_def hundred_and_one_def next_page_def saveState_def insert_row_def
          io_defs example_defs)
  have d: "checkInventory_file (patched long_page) fresh = (Inr (), first_twenty)"
    by code_simp
  have e: "new_of_file (patched long_page) first_twenty = [nth_entry 20]"
    by code_simp
  have f: "checkInventory_file (patched (calm [widget_row])) write_only
             = (Inr (), write_only_after)"
    by (simp add: file_run_defs io_defs detector_defs example_defs)
  have g: "new_of_file (patched (calm [widget_row])) write_only_after = [widget_sale]"
    by (simp add: file_run_defs io_defs detector_defs example_defs)
  from a b c d e f g show ?thesis by simp
qed

text \<open>
  C8, amended. After a run of \<^verbatim>\<open>src/index.js\<close> that returned, the same page finds
  nothing new against the store the run left exactly when every extracted record has its
  identity among the hundred rows inserted last, that is among the appended records
  followed by the rows held before; this is so whenever the run itself found nothing new,
  and whenever the table then holds at most a hundred rows. After a run of the
  file-backed variant that returned, the same page finds nothing new exactly when it gave
  no record, or the state file can be read and every extracted record has its identity
  among the first twenty extracted; this is so whenever the file can be read and the page
  gave at most twenty records. Against a store read in full the detector never reports
  again what was appended.
\<close>

theorem rerun_finds_nothing_iff_window_covers_page:
  "(checkInventory w s = (Inr (), s') \<longrightarrow>
      (new_of w s' = [] \<longleftrightarrow>
         (\<forall>e \<in> set (latestEntries (rows w)).
            identity_key e
              \<in> set (map identity_key (take 100 (rev (new_of w s) @ rev (contents s))))))
      \<and> (new_of w s = [] \<longrightarrow> new_of w s' = [])
      \<and> (length (contents s') \<le> 100 \<longrightarrow> new_of w s' = []))
   \<and> (checkInventory_file w s = (Inr (), s') \<longrightarrow>
      (new_of_file w s' = [] \<longleftrightarrow>
         (\<forall>e \<in> set (latestEntries_file (rows w)).
            \<not> read_denied s
            \<and> identity_key e
                \<in> set (map identity_key (take 20 (latestEntries_file (rows w))))))
      \<and> (\<not> read_denied s \<and> length (latestEntries_file (rows w)) \<le> 20 \<longrightarrow>
            new_of_file w s' = []))
   \<and> newEntries latest (rev (t @ newEntries latest (rev t))) = []"
proof (intro conjI impI)
  assume run: "checkInventory w s = (Inr (), s')"
  from checkInventory_outcome [OF run]
  obtain n sent where "store_outcome w (new_of w s) s (Inr ()) s' n sent"
    by blast
  then have c: "contents s' = contents s @ new_of w s"
    by (simp add: store_outcome_def)
  then have win: "take 100 (rev (contents s')) = take 100 (rev (new_of w s) @ rev (contents s))"
    by simp
  show "new_of w s' = [] \<longleftrightarrow>
         (\<forall>e \<in> set (latestEntries (rows w)).
            identity_key e
              \<in> set (map identity_key (take 100 (rev (new_of w s) @ rev (contents s)))))"
    unfolding new_of_def [of w s'] win by (rule newEntries_empty_iff)
  {
    assume "new_of w s = []"
    with c have "contents s' = contents s" by simp
    from new_of_cong [OF this] \<open>new_of w s = []\<close> show "new_of w s' = []" by simp
  }
  {
    assume "length (contents s') \<le> 100"
    then have "length (contents s) + length (new_of w s) \<le> 100"
      unfolding c by simp
    then have len: "length (contents s)
        + length (newEntries (latestEntries (rows w)) (take 100 (rev (contents s)))) \<le> 100"
      unfolding new_of_def .
    show "new_of w s' = []"
      unfolding new_of_def c [unfolded new_of_def] by (rule rerun_within_window [OF len])
  }
next
  assume run: "checkInventory_file w s = (Inr (), s')"
  from checkInventory_file_outcome [OF run]
  have f: "state_file s' = Records (take 20 (latestEntries_file (rows w)))"
    and m: "read_denied s' = read_denied s"
    by auto
  show iff: "new_of_file w s' = [] \<longleftrightarrow>
         (\<forall>e \<in> set (latestEntries_file (rows w)).
            \<not> read_denied s
            \<and> identity_key e
                \<in> set (map identity_key (take 20 (latestEntries_file (rows w)))))"
  proof (cases "read_denied s")
    case True
    with m f show ?thesis
      by (simp add: new_of_file_def newEntries_empty_iff)
  next
    case False
    with m f show ?thesis
      by (simp add: new_of_file_def newEntries_empty_iff)
  qed
  assume "\<not> read_denied s \<and> length (latestEntries_file (rows w)) \<le> 20"
  with iff show "new_of_file w s' = []"
    by simp
next
  show "newEntries latest (rev (t @ newEntries latest (rev t))) = []"
    by (rule detect_after_append)
qed

theorem rerun_finds_nothing_iff_window_covers_page_witness:
  "checkInventory (patched (calm [widget_row, gadget_row])) fresh
     = (Inr (), fresh\<lparr>table := Some [widget_sale, gadget_receipt], pool_open := False,
                     outbox := [[widget_sale, gadget_receipt]]\<rparr>)
   \<and> new_of (patched (calm [widget_row, gadget_row]))
        (fresh\<lparr>table := Some [widget_sale, gadget_receipt], pool_open := False,
               outbox := [[widget_sale, gadget_receipt]]\<rparr>) = []
   \<and> checkInventory_file (calm [widget_row, gadget_row])
        (fresh\<lparr>state_file := Records [gadget_receipt, widget_sale]\<rparr>)
      = (Inr (), fresh\<lparr>state_file := Records [widget_sale, gadget_receipt]\<rparr>)
   \<and> \<not> read_denied (fresh\<lparr>state_file := Records [gadget_receipt, widget_sale]\<rparr>)
   \<and> new_of_file (calm [widget_row, gadget_row])
        (fresh\<lparr>state_file := Records [widget_sale, gadget_receipt]\<rparr>) = []"
  using rerun_finds_nothing_iff_window_covers_page [of "patched (calm [widget_row, gadget_row])"
          fresh
          "fresh\<lparr>table := Some [widget_sale, gadget_receipt], pool_open := False,
                  outbox := [[widget_sale, gadget_receipt]]\<rparr>" "[]" "[]"]
        rerun_finds_nothing_iff_window_covers_page [of "calm [widget_row, gadget_row]"
          "fresh\<lparr>state_file := Records [gadget_receipt, widget_sale]\<rparr>"
          "fresh\<lparr>state_file := Records [widget_sale, gadget_receipt]\<rparr>" "[]" "[]"]
  by (simp add: table_run_defs file_run_defs io_defs detector_defs example_defs)

subsection \<open>C9: loading the previous state\<close>

text \<open>
  C9, as stated, fails on the file-backed variant: the empty \<^verbatim>\<open>catch\<close> of line 41
  swallows every error. A state file that cannot be read, or that does not parse, loads
  as an empty previous state without any error, the record on the page is classified as
  new, and a run over an empty page returns normally.
\<close>

theorem unreadable_state_file_loads_as_empty:
  "load_previous (fresh\<lparr>state_file := Malformed\<rparr>) = (Inr [], fresh\<lparr>state_file := Malformed\<rparr>)
   \<and> load_previous (fresh\<lparr>state_file := Records [widget_sale], read_denied := True\<rparr>)
       = (Inr [], fresh\<lparr>state_file := Records [widget_sale], read_denied := True\<rparr>)
   \<and> new_of_file (calm [widget_row]) (fresh\<lparr>state_file := Malformed\<rparr>) = [widget_sale]
   \<and> checkInventory_file (calm [])
         (fresh\<lparr>state_file := Records [widget_sale], read_denied := True\<rparr>)
       = (Inr (), fresh\<lparr>state_file := Records [], read_denied := True\<rparr>)"
  by (simp add: file_run_defs io_defs detector_defs example_defs)

text \<open>
  C9, amended. In the file-backed variant loading never fails: an absent, an unreadable
  and a malformed state file all load as the empty previous state, and only a file that
  holds records loads as those. In \<^verbatim>\<open>src/index.js\<close> an absent table is created
  empty, so an absent or empty table loads as the empty previous state; a
  \<^verbatim>\<open>SELECT\<close> that throws is an error, and no run in which it throws returns normally.
\<close>

theorem previous_state_loading:
  "load_previous s
       = (Inr (if read_denied s then []
               else case state_file s of Records es \<Rightarrow> es | _ \<Rightarrow> []), s)
   \<and> ((table s = None \<or> table s = Some []) \<and> CreateTable \<notin> set (failing w)
        \<and> CreateIndex \<notin> set (failing w) \<and> SelectRecent \<notin> set (failing w) \<longrightarrow>
        then_io (initDatabase w) (getPreviousEntries w) s = (Inr [], s\<lparr>table := Some []\<rparr>))
   \<and> (SelectRecent \<in> set (failing w) \<longrightarrow>
        getPreviousEntries w s = (Inl (Rejected SelectRecent), s))
   \<and> (SelectRecent \<in> set (failing w) \<and> checkInventory w s = (r, s') \<longrightarrow> r \<noteq> Inr ())"
proof (intro conjI impI)
  show "load_previous s
       = (Inr (if read_denied s then []
               else case state_file s of Records es \<Rightarrow> es | _ \<Rightarrow> []), s)"
    by (rule load_previous_apply)
next
  assume "(table s = None \<or> table s = Some []) \<and> CreateTable \<notin> set (failing w)
        \<and> CreateIndex \<notin> set (failing w) \<and> SelectRecent \<notin> set (failing w)"
  then show "then_io (initDatabase w) (getPreviousEntries w) s = (Inr [], s\<lparr>table := Some []\<rparr>)"
    by (auto simp: initDatabase_def getPreviousEntries_def contents_def io_defs)
next
  assume "SelectRecent \<in> set (failing w)"
  then show "getPreviousEntries w s = (Inl (Rejected SelectRecent), s)"
    by (simp add: getPreviousEntries_def io_defs)
next
  assume a: "SelectRecent \<in> set (failing w) \<and> checkInventory w s = (r, s')"
  show "r \<noteq> Inr ()"
  proof
    assume "r = Inr ()"
    with a have "checkInventory w s = (Inr (), s')" by simp
    from checkInventory_success [OF this] a show False by simp
  qed
qed

theorem previous_state_loading_witness:
  "table fresh = None
   \<and> then_io (initDatabase (calm [])) (getPreviousEntries (calm [])) fresh
       = (Inr [], fresh\<lparr>table := Some []\<rparr>)
   \<and> SelectRecent \<in> set (failing ((calm [widget_row])\<lparr>failing := [SelectRecent]\<rparr>))
   \<and> checkInventory ((calm [widget_row])\<lparr>failing := [SelectRecent]\<rparr>) fresh
       = (Inl (Rejected SelectRecent), fresh\<lparr>table := Some [], pool_open := False\<rparr>)
   \<and> load_previous (fresh\<lparr>state_file := Records [widget_sale]\<rparr>)
       = (Inr [widget_sale], fresh\<lparr>state_file := Records [widget_sale]\<rparr>)"
  using previous_state_loading [of "fresh\<lparr>state_file := Records [widget_sale]\<rparr>" "calm []"
          "Inr ()" fresh]
        previous_state_loading [of fresh "calm []" "Inr ()" fresh]
        previous_state_loading [of fresh "(calm [widget_row])\<lparr>failing := [SelectRecent]\<rparr>"
          "Inl (Rejected SelectRecent)" "fresh\<lparr>table := Some [], pool_open := False\<rparr>"]
  by (simp add: table_run_defs io_defs detector_defs example_defs)

subsection \<open>C10: release of the browser and the pool\<close>

text \<open>
  C10 fails in both variants. In \<^verbatim>\<open>src/index.js\<close> the browser is launched, and the
  context and the page are created, before the \<^verbatim>\<open>try\<close> block whose
  \<^verbatim>\<open>finally\<close> closes the browser: when \<^verbatim>\<open>context.newPage()\<close> throws, the run
  ends, \<^verbatim>\<open>main\<close> ends the pool and exits with code 1, and the browser was never
  closed. \<^verbatim>\<open>src/unnamed/part_000\<close> has no \<^verbatim>\<open>finally\<close> at all: a wait for the
  table that times out, or the \<^verbatim>\<open>TypeError\<close> of \<^verbatim>\<open>sendEmail\<close>, ends the run with
  the browser open.
\<close>

theorem browser_left_open_on_failure:
  "main ((calm [widget_row])\<lparr>failing := [NewPage]\<rparr>) fresh
     = (Exit 1, fresh\<lparr>table := Some [], browser_open := True, pool_open := False\<rparr>)
   \<and> checkInventory_file ((calm [widget_row])\<lparr>failing := [WaitForSelector]\<rparr>) fresh
     = (Inl (Rejected WaitForSelector), fresh\<lparr>browser_open := True\<rparr>)
   \<and> checkInventory_file (calm [widget_row]) fresh
     = (Inl (NotAFunction ''nodemailer.createTransporter''), fresh\<lparr>browser_open := True\<rparr>)"
  by (simp add: table_run_defs file_run_defs io_defs detector_defs example_defs)

end
